theory Spec2Isabelle
  imports Main
begin

section \<open>Data model of the CashFusion Qt plugin (plugins/fusion/qt.py)\<close>

text \<open>
  Python objects are referred to by identity.  Wallets, windows and Fusion objects are
  identified by numbers; the objects themselves live in the \<open>world\<close> record below, so
  that two references to one object (for instance a Fusion that is a member of both
  \<open>wallet._fusions\<close> and \<open>wallet._fusions_auto\<close>) see the same updates.
\<close>

type_synonym wallet_id = nat
type_synonym fusion_id = nat
type_synonym window = nat

text \<open>The exceptions that the modelled functions raise or catch.\<close>

datatype error = InvalidPassword | RuntimeError string

text \<open>
  A \<open>weakref.ref\<close>: calling it gives the referent, or \<open>None\<close> once the referent has been
  deallocated.
\<close>

datatype 'a weakref = Weakref (deref: "'a option")

text \<open>Modelled from the spec: the status words of a FusionHandle (section 3).  The class
  \<open>Fusion\<close> belongs to fusion.py, which is not among the sources; qt.py itself names the
  words \<open>running\<close> and \<open>waiting\<close>.
\<close>

datatype status = Waiting | Running | Stopping | Stopped | Complete | Failed

text \<open>Modelled from the spec: the FusionHandle of section 3, with the \<open>stop_requested\<close> flag
  of section 4.3.  In qt.py, \<open>fusion.status\<close> is the pair of the status word and the
  extra text, and \<open>fusion.target_wallet\<close> is the wallet.
\<close>

record fusion =
  target_wallet :: wallet_id
  status :: status
  status_extra :: string
  stop_requested :: bool

text \<open>
  The part of an \<open>Abstract_Wallet\<close> that the plugin touches.  The wallet library is not
  part of the sources, so its password verifier is a parameter of the model:
  \<open>has_password w\<close> is the result of \<open>wallet.has_password()\<close>, and
  \<open>check_password w pw\<close> holds when \<open>wallet.check_password(pw)\<close> returns normally; when it
  does not hold the call raises \<open>InvalidPassword\<close>.  \<open>storage\<close> holds the integer-valued
  settings that the wallet dialog reads and writes; \<open>fusions\<close> and \<open>fusions_auto\<close> are
  \<open>wallet._fusions\<close> and \<open>wallet._fusions_auto\<close>.
\<close>

record wallet =
  has_password :: bool
  check_password :: "string \<Rightarrow> bool"
  weak_window :: "window weakref option"
  storage :: "string \<rightharpoonup> int"
  fusions :: "fusion_id list"
  fusions_auto :: "fusion_id list"

text \<open>
  The effects of the plugin on its collaborators, in the order in which they happen:
  \<open>f.stop(reason, not_if_running)\<close> on a Fusion and \<open>self.print_error(wallet, msg)\<close>.
\<close>

datatype call = Stop_call fusion_id string bool | Print_error wallet_id string

text \<open>
  The state that the plugin works on.  \<open>password_cache\<close> is the password cache of the
  application's \<open>gui_object\<close>, reached in the source through
  \<open>window.gui_object.get_cached_password(wallet)\<close> and
  \<open>window.gui_object.cache_password(wallet, password)\<close>.  \<open>autofusing_wallets\<close> is the
  registry of wallets with autofuse enabled, kept by plugin.py (see below).  \<open>last_server_status\<close> is the class attribute
  of \<open>Plugin\<close>, and \<open>server_status_changed_signal\<close> lists the payloads emitted on the Qt
  signal of that name, oldest first.
\<close>

record world =
  wallets :: "wallet_id \<Rightarrow> wallet"
  fusion :: "fusion_id \<Rightarrow> fusion"
  password_cache :: "wallet_id \<rightharpoonup> string"
  autofusing_wallets :: "wallet_id \<rightharpoonup> string option"
  calls :: "call list"
  last_server_status :: "bool \<times> (string \<times> string)"
  server_status_changed_signal :: "(bool \<times> (string \<times> string)) list"

section \<open>The password cache: \<open>Plugin.window_for_wallet\<close>, \<open>get_cached_pw\<close>, \<open>cache_pw\<close>\<close>

text \<open>
  \<open>return (wallet.weak_window and wallet.weak_window()) or None\<close>
\<close>

definition window_for_wallet :: "wallet \<Rightarrow> window option" where
  "window_for_wallet w = (case weak_window w of None \<Rightarrow> None | Some r \<Rightarrow> deref r)"

text \<open>Modelled from the spec: \<open>gui_object.get_cached_password(wallet)\<close>, of the Qt gui
  object, which is not among the sources: the cache holds at most one password per
  wallet, and the lookup gives it, or \<open>None\<close>.
\<close>

definition get_cached_password :: "world \<Rightarrow> wallet_id \<Rightarrow> string option" where
  "get_cached_password s wid = password_cache s wid"

text \<open>Modelled from the spec: \<open>gui_object.cache_password(wallet, password)\<close>, of the Qt gui
  object, which is not among the sources: it stores the password, overwriting any
  previous entry for that wallet, and validates nothing.
\<close>

definition cache_password :: "wallet_id \<Rightarrow> string \<Rightarrow> world \<Rightarrow> world" where
  "cache_password wid password s = s\<lparr>password_cache := (password_cache s)(wid \<mapsto> password)\<rparr>"

text \<open>
  \<open>Plugin.get_cached_pw\<close>.  The text of the \<open>RuntimeError\<close> is kept without the wallet's
  diagnostic name.
\<close>

definition get_cached_pw :: "world \<Rightarrow> wallet_id \<Rightarrow> error + (bool \<times> string option)" where
  "get_cached_pw s wid =
     (let w = wallets s wid in
      if \<not> has_password w then Inr (False, None)
      else
        (case window_for_wallet w of
           None \<Rightarrow> Inl (RuntimeError ''Wallet lacks a valid ElectrumWindow instance!'')
         | Some window \<Rightarrow>
             (case get_cached_password s wid of
                None \<Rightarrow> Inr (True, None)
              | Some pw \<Rightarrow>
                  if check_password w pw then Inr (True, Some pw) else Inr (True, None))))"

text \<open>\<open>Plugin.cache_pw\<close>: no path of it raises, so it is a plain state transformer.\<close>

definition cache_pw :: "wallet_id \<Rightarrow> string \<Rightarrow> world \<Rightarrow> world" where
  "cache_pw wid password s =
     (case window_for_wallet (wallets s wid) of
        None \<Rightarrow> s
      | Some window \<Rightarrow> cache_password wid password s)"

section \<open>Fusion handles\<close>

text \<open>Modelled from the spec: \<open>Fusion.stop(reason, not_if_running)\<close>, of fusion.py, which is
  not among the sources.  The specification gives the handle a \<open>stop_requested\<close> flag,
  settable from any state; a stop request takes a waiting handle to \<open>stopped\<close> at once and
  only flags a running one as \<open>stopping\<close>.  With \<open>not_if_running\<close> (the keyword the
  callers in qt.py pass) a round that is already running is exempt from the request.
  The reason is not kept in the handle; the callers' requests are recorded in \<open>calls\<close>.
\<close>

definition stop :: "string \<Rightarrow> bool \<Rightarrow> fusion \<Rightarrow> fusion" where
  "stop reason not_if_running f =
     (if not_if_running \<and> (status f = Running \<or> status f = Stopping) then f
      else f\<lparr>status := (case status f of Waiting \<Rightarrow> Stopped | Running \<Rightarrow> Stopping | st \<Rightarrow> st),
             stop_requested := True\<rparr>)"

text \<open>Modelled from the spec: what the external fusion engine (fusion.py, not among the
  sources) can do to a round.
\<close>

datatype round_event = Round_started | Round_completed | Round_failed | Step_finished

text \<open>Modelled from the spec: the state machine of section 4.3,
  \<open>waiting \<rightarrow> running \<rightarrow> {complete, failed}\<close>; a round flagged as \<open>stopping\<close> completes
  its current step and then is \<open>stopped\<close>.  Any other event leaves the status as it is.
\<close>

fun advance :: "round_event \<Rightarrow> status \<Rightarrow> status" where
  "advance Round_started Waiting = Running"
| "advance Round_completed Running = Complete"
| "advance Round_failed Running = Failed"
| "advance Step_finished Stopping = Stopped"
| "advance ev st = st"

text \<open>Modelled from the spec: the engine's event applied to a handle.\<close>

definition engine :: "round_event \<Rightarrow> fusion \<Rightarrow> fusion" where
  "engine ev f = f\<lparr>status := advance ev (status f)\<rparr>"

text \<open>Modelled from the spec: a round is currently running or queued while its status is
  not one of the terminal ones (\<open>stopped\<close>, \<open>complete\<close>, \<open>failed\<close>).
\<close>

definition in_flight :: "fusion \<Rightarrow> bool" where
  "in_flight f = (status f = Waiting \<or> status f = Running \<or> status f = Stopping)"

text \<open>
  The call \<open>f.stop(reason, not_if_running = b)\<close> as the plugin issues it: the request is
  recorded and the Fusion object updated in place.
\<close>

definition fusion_stop :: "fusion_id \<Rightarrow> string \<Rightarrow> bool \<Rightarrow> world \<Rightarrow> world" where
  "fusion_stop f reason not_if_running s =
     s\<lparr>fusion := (fusion s)(f := stop reason not_if_running (fusion s f)),
       calls := calls s @ [Stop_call f reason not_if_running]\<rparr>"

text \<open>\<open>self.print_error(wallet, msg)\<close>\<close>

definition print_error :: "wallet_id \<Rightarrow> string \<Rightarrow> world \<Rightarrow> world" where
  "print_error wid msg s = s\<lparr>calls := calls s @ [Print_error wid msg]\<rparr>"

section \<open>The autofuse registry\<close>

text \<open>Modelled from the spec: the wallet's credential check of section 6
  (\<open>WalletCredentialCheck(wallet, password) -> bool\<close>), for a password that may be
  \<open>None\<close>: no password is right exactly for a wallet that has none.
\<close>

definition credential_ok :: "wallet \<Rightarrow> string option \<Rightarrow> bool" where
  "credential_ok w password =
     (case password of None \<Rightarrow> \<not> has_password w | Some pw \<Rightarrow> check_password w pw)"

text \<open>Modelled from the spec: \<open>FusionPlugin.is_autofusing\<close>, of plugin.py, which is not among
  the sources.  A wallet is autofusing when the registry holds a background task for
  it; the task is represented by the password it was started with.
\<close>

definition is_autofusing :: "world \<Rightarrow> wallet_id \<Rightarrow> bool" where
  "is_autofusing s wid = (autofusing_wallets s wid \<noteq> None)"

text \<open>Modelled from the spec: \<open>FusionPlugin.enable_autofusing\<close>, of plugin.py, which is not
  among the sources (\<open>enable(wallet, password)\<close> of section 4.2).  It fails with
  \<open>InvalidPassword\<close>, leaving the state as it was, when the password does not satisfy the
  wallet's credential check; otherwise it caches the password, marks the wallet enabled
  and starts its background task.
\<close>

definition enable_autofusing :: "wallet_id \<Rightarrow> string option \<Rightarrow> world \<Rightarrow> error + world" where
  "enable_autofusing wid password s =
     (if \<not> credential_ok (wallets s wid) password then Inl InvalidPassword
      else
        (let s1 = (case password of None \<Rightarrow> s | Some pw \<Rightarrow> cache_pw wid pw s)
         in Inr (s1\<lparr>autofusing_wallets := (autofusing_wallets s1)(wid \<mapsto> password)\<rparr>)))"

text \<open>Modelled from the spec: \<open>FusionPlugin.disable_autofusing\<close>, of plugin.py, which is not
  among the sources (\<open>disable(wallet) -> list<FusionHandle>\<close> of section 4.2).  It marks
  the wallet as not enabled and returns the handles of the wallet's rounds that are
  currently running or queued; it does not stop them.
\<close>

definition disable_autofusing :: "wallet_id \<Rightarrow> world \<Rightarrow> fusion_id list \<times> world" where
  "disable_autofusing wid s =
     (filter (\<lambda>f. in_flight (fusion s f)) (fusions (wallets s wid)),
      s\<lparr>autofusing_wallets := (autofusing_wallets s)(wid := None)\<rparr>)"

section \<open>\<open>Plugin.on_new_password\<close>\<close>

text \<open>
  The hook receives the window; the model takes the window's wallet.  Only
  \<open>InvalidPassword\<close> is caught; any other exception of \<open>enable_autofusing\<close> leaves the hook.
\<close>

definition on_new_password ::
  "wallet_id \<Rightarrow> string option \<Rightarrow> string option \<Rightarrow> world \<Rightarrow> error + world" where
  "on_new_password wid old new s =
     (if is_autofusing s wid then
        (case enable_autofusing wid new s of
           Inr s1 \<Rightarrow> Inr (print_error wid ''updated autofusion password'' s1)
         | Inl InvalidPassword \<Rightarrow>
             (case disable_autofusing wid s of
                (running, s1) \<Rightarrow>
                  Inr (print_error wid
                         ''disabled autofusion due to incorrect password - BUG'' s1))
         | Inl e \<Rightarrow> Inl e)
      else Inr s)"

section \<open>\<open>PasswordDialog\<close> and \<open>FusionButton.toggle_autofuse\<close>\<close>

text \<open>\<open>PasswordDialog._chk_pass\<close>\<close>

definition chk_pass :: "wallet \<Rightarrow> string \<Rightarrow> bool" where
  "chk_pass w password = (if \<not> has_password w then True else check_password w password)"

text \<open>
  \<open>PasswordDialog.run\<close>, for a dialog without callbacks: the user submits the texts of
  \<open>typed\<close> one after the other (\<open>pw_entered\<close>); the first that passes \<open>_chk_pass\<close> is cached
  (\<open>_on_pw_ok\<close>) and returned.  When the list is exhausted the user has cancelled the
  dialog, and the result is \<open>None\<close>.
\<close>

fun password_dialog_run :: "string list \<Rightarrow> wallet_id \<Rightarrow> world \<Rightarrow> string option \<times> world" where
  "password_dialog_run [] wid s = (None, s)"
| "password_dialog_run (password # typed) wid s =
     (if chk_pass (wallets s wid) password then (Some password, cache_pw wid password s)
      else password_dialog_run typed wid s)"

text \<open>
  The \<open>try\<close> block of \<open>toggle_autofuse\<close>: an \<open>InvalidPassword\<close> of \<open>enable_autofusing\<close> is
  silently ignored.
\<close>

definition try_enable_autofusing :: "wallet_id \<Rightarrow> string option \<Rightarrow> world \<Rightarrow> error + world" where
  "try_enable_autofusing wid password s =
     (case enable_autofusing wid password s of
        Inr s1 \<Rightarrow> Inr s1
      | Inl InvalidPassword \<Rightarrow> Inr s
      | Inl e \<Rightarrow> Inl e)"

text \<open>
  \<open>FusionButton.toggle_autofuse\<close>.  What the user does is a parameter: \<open>typed\<close> are the
  texts submitted to the password dialog, \<open>plugin_active\<close> is \<open>plugin.active\<close> when the
  dialog returns, and \<open>answer_yes\<close> tells whether the question box is answered with
  \<open>QMessageBox.Yes\<close>.  The closing \<open>update_state\<close> only redraws the button.
\<close>

definition toggle_autofuse ::
  "wallet_id \<Rightarrow> string list \<Rightarrow> bool \<Rightarrow> bool \<Rightarrow> world \<Rightarrow> error + world" where
  "toggle_autofuse wid typed plugin_active answer_yes s =
     (if \<not> is_autofusing s wid then
        (case get_cached_pw s wid of
           Inl e \<Rightarrow> Inl e
         | Inr (has_pw, password) \<Rightarrow>
             if has_pw \<and> password = None then
               (case password_dialog_run typed wid s of
                  (password1, s1) \<Rightarrow>
                    if password1 = None \<or> \<not> plugin_active then Inr s1
                    else try_enable_autofusing wid password1 s1)
             else try_enable_autofusing wid password s)
      else
        (case disable_autofusing wid s of
           (running, s1) \<Rightarrow>
             if running \<noteq> [] then
               (if answer_yes then
                  Inr (fold (\<lambda>f. fusion_stop f ''Stop requested by user'' False) running s1)
                else Inr s1)
             else Inr s1))"

section \<open>\<open>WalletSettingsDialog\<close>: the queued-fusion limit and the self-fuse choice\<close>

text \<open>\<open>wallet.storage.get(key, default)\<close> and \<open>wallet.storage.put(key, value)\<close>\<close>

definition storage_get :: "wallet \<Rightarrow> string \<Rightarrow> int \<Rightarrow> int" where
  "storage_get w key dflt = (case storage w key of None \<Rightarrow> dflt | Some v \<Rightarrow> v)"

definition storage_put :: "wallet_id \<Rightarrow> string \<Rightarrow> int \<Rightarrow> world \<Rightarrow> world" where
  "storage_put wid key v s =
     s\<lparr>wallets := (wallets s)(wid := (wallets s wid)\<lparr>storage := (storage (wallets s wid))(key \<mapsto> v)\<rparr>)\<rparr>"

text \<open>
  \<open>WalletSettingsDialog.edited_queued_autofuse\<close>.  The constant
  \<open>DEFAULT_QUEUED_AUTOFUSE\<close> of plugin.py is a parameter, and \<open>numfuse\<close> is the value of the
  spin box.  The closing \<open>self.update()\<close> refreshes the dialog's widgets; it touches
  neither this setting nor any Fusion.
\<close>

definition edited_queued_autofuse :: "int \<Rightarrow> wallet_id \<Rightarrow> int \<Rightarrow> world \<Rightarrow> world" where
  "edited_queued_autofuse DEFAULT_QUEUED_AUTOFUSE wid numfuse s =
     (let prevval = storage_get (wallets s wid) ''cashfusion_queued_autofuse''
                      DEFAULT_QUEUED_AUTOFUSE;
          s1 = storage_put wid ''cashfusion_queued_autofuse'' numfuse s
      in if prevval > numfuse then
           fold (\<lambda>f. fusion_stop f ''User decreased queued-fuse limit'' True)
             (fusions_auto (wallets s1 wid)) s1
         else s1)"

text \<open>
  \<open>WalletSettingsDialog.chose_self_fuse\<close>.  The constant \<open>DEFAULT_SELF_FUSE\<close> of fusion.py
  is a parameter, and \<open>sel\<close> is the datum of the combo box's current entry.
\<close>

definition chose_self_fuse :: "int \<Rightarrow> wallet_id \<Rightarrow> int \<Rightarrow> world \<Rightarrow> world" where
  "chose_self_fuse DEFAULT_SELF_FUSE wid sel s =
     (let oldsel = storage_get (wallets s wid) ''cashfusion_self_fuse_players''
                     DEFAULT_SELF_FUSE;
          s1 = storage_put wid ''cashfusion_self_fuse_players'' sel s
      in if oldsel \<noteq> sel then
           fold (\<lambda>f. fusion_stop f ''User changed self-fuse limit'' True)
             (fusions (wallets s1 wid)) s1
         else s1)"

text \<open>
  Observations on a list of handles: those that are queued (waiting) in a state, and
  those that were queued in \<open>s\<close> and are stopped in \<open>s'\<close>.
\<close>

definition queued :: "world \<Rightarrow> fusion_id list \<Rightarrow> fusion_id list" where
  "queued s fs = filter (\<lambda>f. status (fusion s f) = Waiting) fs"

definition stopped_between :: "world \<Rightarrow> world \<Rightarrow> fusion_id list \<Rightarrow> fusion_id list" where
  "stopped_between s s' fs =
     filter (\<lambda>f. status (fusion s f) = Waiting \<and> status (fusion s' f) = Stopped) fs"

section \<open>Server status: \<open>Plugin.notify_server_status\<close> and its subscribers\<close>

text \<open>
  \<open>Plugin.notify_server_status\<close>.  The call of the superclass's method comes first in the
  source; \<open>last_server_status\<close> and the signal are declared by the Qt class, so the
  superclass does not touch them.
\<close>

definition notify_server_status :: "bool \<Rightarrow> string \<times> string \<Rightarrow> world \<Rightarrow> world" where
  "notify_server_status b tup s =
     (let status_tup = (b, tup) in
      if last_server_status s \<noteq> status_tup then
        s\<lparr>last_server_status := status_tup,
          server_status_changed_signal := server_status_changed_signal s @ [status_tup]\<rparr>
      else s)"

text \<open>A sequence of publications, one call of \<open>notify_server_status\<close> each.\<close>

definition notify_all :: "(bool \<times> (string \<times> string)) list \<Rightarrow> world \<Rightarrow> world" where
  "notify_all ps s = fold (\<lambda>p. notify_server_status (fst p) (snd p)) ps s"

text \<open>\<open>Plugin.get_server_error\<close>\<close>

definition get_server_error :: "world \<Rightarrow> (string \<times> string) option" where
  "get_server_error s =
     (if \<not> fst (last_server_status s) then Some (snd (last_server_status s)) else None)"

text \<open>
  \<open>FusionButton.update_server_error\<close>, the slot connected to the signal.  Of the button
  the model keeps \<open>server_error\<close> and the list of the values with which the button went on
  to show or kill its popup and repaint, oldest first.
\<close>

record fusion_button =
  server_error :: "(string \<times> string) option"
  shown :: "(string \<times> string) option list"

definition update_server_error :: "world \<Rightarrow> fusion_button \<Rightarrow> fusion_button" where
  "update_server_error s btn =
     (let tup = get_server_error s in
      if \<not> (tup \<noteq> server_error btn) then btn
      else btn\<lparr>server_error := tup, shown := shown btn @ [tup]\<rparr>)"

text \<open>
  The signal is connected to the slot (\<open>on_new_window\<close>); the slot runs once for each
  state of the plugin in \<open>ss\<close>, in which it finds \<open>get_server_error\<close>.
\<close>

definition deliver :: "world list \<Rightarrow> fusion_button \<Rightarrow> fusion_button" where
  "deliver ss btn = fold update_server_error ss btn"

section \<open>Example states\<close>

text \<open>
  A wallet without password and without window, and a world populated with it, from
  which the concrete states of the examples below are built by record update.
\<close>

definition plain_wallet :: wallet where
  "plain_wallet =
     \<lparr>has_password = False, check_password = (\<lambda>pw. True), weak_window = None,
      storage = Map.empty, fusions = [], fusions_auto = []\<rparr>"

definition idle_fusion :: fusion where
  "idle_fusion = \<lparr>target_wallet = 0, status = Waiting, status_extra = [], stop_requested = False\<rparr>"

definition empty_world :: world where
  "empty_world =
     \<lparr>wallets = (\<lambda>wid. plain_wallet), fusion = (\<lambda>f. idle_fusion),
      password_cache = Map.empty, autofusing_wallets = Map.empty, calls = [],
      last_server_status = (True, (''Ok'', [])), server_status_changed_signal = []\<rparr>"

text \<open>A wallet protected by the password \<open>p\<close>, shown in window 1.\<close>

definition locked_wallet :: "string \<Rightarrow> wallet" where
  "locked_wallet p =
     plain_wallet\<lparr>has_password := True, check_password := (\<lambda>pw. pw = p),
                  weak_window := Some (Weakref (Some 1))\<rparr>"

text \<open>
  Wallet 0 was protected by \<open>pw1\<close>, which was cached through \<open>cache_pw\<close>; afterwards the
  wallet's password was changed to \<open>pw2\<close> behind the cache's back.
\<close>

definition rotated_world :: world where
  "rotated_world =
     (let s = cache_pw 0 ''pw1'' (empty_world\<lparr>wallets := (\<lambda>wid. locked_wallet ''pw1'')\<rparr>)
      in s\<lparr>wallets := (\<lambda>wid. locked_wallet ''pw2'')\<rparr>)"

text \<open>Wallet 0 is protected by \<open>pw1\<close>, which is cached, and its window has been deallocated.\<close>

definition orphan_world :: world where
  "orphan_world =
     empty_world\<lparr>wallets := (\<lambda>wid. (locked_wallet ''pw1'')\<lparr>weak_window := Some (Weakref None)\<rparr>),
                 password_cache := [0 \<mapsto> ''pw1'']\<rparr>"

text \<open>
  As \<open>rotated_world\<close> (\<open>pw1\<close> cached, password changed to \<open>pw2\<close>), after the wallet's
  window has been deallocated.
\<close>

definition stale_orphan_world :: world where
  "stale_orphan_world =
     rotated_world\<lparr>wallets :=
       (\<lambda>wid. (locked_wallet ''pw2'')\<lparr>weak_window := Some (Weakref None)\<rparr>)\<rparr>"

text \<open>Wallet 0 has no password and a live window.\<close>

definition open_world :: world where
  "open_world =
     empty_world\<lparr>wallets := (\<lambda>wid. plain_wallet\<lparr>weak_window := Some (Weakref (Some 1))\<rparr>)\<rparr>"

text \<open>
  Wallet 0 has the queued-fusion limit 3 in its storage and three fusions: 1 and 2 were
  started by autofuse and are waiting, 3 was started by hand and is running.
\<close>

definition queue_world :: world where
  "queue_world =
     empty_world\<lparr>
       wallets := (\<lambda>wid. plain_wallet\<lparr>storage := [''cashfusion_queued_autofuse'' \<mapsto> 3],
                                       fusions := [1, 2, 3], fusions_auto := [1, 2]\<rparr>),
       fusion := (\<lambda>f. if f = 3 then idle_fusion\<lparr>status := Running\<rparr> else idle_fusion)\<rparr>"

text \<open>The same, with autofuse enabled for wallet 0 (which has no password).\<close>

definition fusing_world :: world where
  "fusing_world = queue_world\<lparr>autofusing_wallets := [0 \<mapsto> None]\<rparr>"

text \<open>
  Wallet 0 is autofusing under the password \<open>pw1\<close>, and the wallet's password is now
  \<open>pw2\<close>.
\<close>

definition healing_world :: world where
  "healing_world =
     empty_world\<lparr>wallets := (\<lambda>wid. locked_wallet ''pw2''),
                 autofusing_wallets := [0 \<mapsto> Some ''pw1'']\<rparr>"

text \<open>A status bar button as its constructor leaves it.\<close>

definition fresh_button :: fusion_button where
  "fresh_button = \<lparr>server_error = None, shown = []\<rparr>"

section \<open>Properties of the password cache\<close>

lemma get_cached_pw_no_password:
  "\<not> has_password (wallets s wid) \<Longrightarrow> get_cached_pw s wid = Inr (False, None)"
  by (simp add: get_cached_pw_def)

lemma get_cached_pw_cached:
  assumes "has_password (wallets s wid)"
    and "window_for_wallet (wallets s wid) = Some win"
    and "get_cached_password s wid = Some pw"
  shows "get_cached_pw s wid =
           Inr (True, if check_password (wallets s wid) pw then Some pw else None)"
  using assms by (simp add: get_cached_pw_def)

lemma rotated_facts:
  "has_password (wallets rotated_world 0)"
  "window_for_wallet (wallets rotated_world 0) = Some 1"
  "get_cached_password rotated_world 0 = Some ''pw1''"
  "\<not> check_password (wallets rotated_world 0) ''pw1''"
  by (simp_all add: rotated_world_def empty_world_def locked_wallet_def plain_wallet_def
      cache_pw_def cache_password_def window_for_wallet_def get_cached_password_def Let_def)

lemma orphan_facts:
  "has_password (wallets orphan_world 0)"
  "window_for_wallet (wallets orphan_world 0) = None"
  "get_cached_password orphan_world 0 = Some ''pw1''"
  by (simp_all add: orphan_world_def empty_world_def locked_wallet_def plain_wallet_def
      window_for_wallet_def get_cached_password_def)

text \<open>
  Claim C1, as stated for every wallet, fails.  In \<open>stale_orphan_world\<close> wallet 0 is
  password-protected, \<open>pw1\<close> is cached for it, its password has been changed to \<open>pw2\<close>
  and its window has been deallocated.  The query does not return \<open>(True, None)\<close>: it
  raises \<open>RuntimeError\<close> (lines 324 to 326 of qt.py) before it looks into the cache.
\<close>

theorem get_cached_pw_revalidates_counterexample:
  "has_password (wallets stale_orphan_world 0) \<and>
   get_cached_password stale_orphan_world 0 = Some ''pw1'' \<and>
   \<not> check_password (wallets stale_orphan_world 0) ''pw1'' \<and>
   check_password (wallets stale_orphan_world 0) ''pw2'' \<and>
   window_for_wallet (wallets stale_orphan_world 0) = None \<and>
   get_cached_pw stale_orphan_world 0 =
     Inl (RuntimeError ''Wallet lacks a valid ElectrumWindow instance!'') \<and>
   get_cached_pw stale_orphan_world 0 \<noteq> Inr (True, None)"
  by (simp add: stale_orphan_world_def rotated_world_def empty_world_def locked_wallet_def
      plain_wallet_def cache_pw_def cache_password_def get_cached_pw_def
      window_for_wallet_def get_cached_password_def Let_def)

text \<open>
  Claim C1, amended.  For a wallet that requires no password, \<open>get_cached_pw\<close> returns
  \<open>(False, None)\<close>.  For a password-protected wallet whose window is alive and for which
  a password is cached, the cached password is checked against the wallet's current
  password before it is returned: the query returns \<open>(True, pw)\<close> when the check passes
  and \<open>(True, None)\<close> when it fails, as it does after the wallet's password was changed
  behind the cache's back.  For every wallet, a password that the query returns passes
  the wallet's current check, so a stale cached value is never returned.
\<close>

theorem get_cached_pw_revalidates:
  "(\<not> has_password (wallets s wid) \<longrightarrow> get_cached_pw s wid = Inr (False, None)) \<and>
   (has_password (wallets s wid) \<and> window_for_wallet (wallets s wid) \<noteq> None \<and>
    get_cached_password s wid = Some pw \<longrightarrow>
      get_cached_pw s wid =
        Inr (True, if check_password (wallets s wid) pw then Some pw else None)) \<and>
   (\<forall>b q. get_cached_pw s wid = Inr (b, Some q) \<longrightarrow> check_password (wallets s wid) q)"
proof (intro conjI impI allI)
  show "get_cached_pw s wid = Inr (False, None)" if "\<not> has_password (wallets s wid)"
    using that by (rule get_cached_pw_no_password)
  show "get_cached_pw s wid =
          Inr (True, if check_password (wallets s wid) pw then Some pw else None)"
    if "has_password (wallets s wid) \<and> window_for_wallet (wallets s wid) \<noteq> None \<and>
        get_cached_password s wid = Some pw"
    using that by (auto simp: get_cached_pw_cached)
  show "check_password (wallets s wid) q" if "get_cached_pw s wid = Inr (b, Some q)" for b q
    using that
    by (auto simp: get_cached_pw_def Let_def split: if_splits option.splits)
qed

text \<open>
  The scenario of the specification: \<open>pw1\<close> is cached for wallet 0, the wallet's password
  is then changed to \<open>pw2\<close>, and the query answers \<open>(True, None)\<close>; a wallet without
  password answers \<open>(False, None)\<close>.
\<close>

theorem get_cached_pw_revalidates_witness:
  "\<not> has_password (wallets open_world 0) \<and>
   get_cached_pw open_world 0 = Inr (False, None) \<and>
   has_password (wallets rotated_world 0) \<and>
   window_for_wallet (wallets rotated_world 0) = Some 1 \<and>
   get_cached_password rotated_world 0 = Some ''pw1'' \<and>
   get_cached_pw rotated_world 0 = Inr (True, None)"
proof -
  have a: "\<not> has_password (wallets open_world 0)"
    by (simp add: open_world_def empty_world_def plain_wallet_def)
  note plain = get_cached_pw_revalidates [of open_world 0 "''pw1''", THEN conjunct1]
  note cached =
    get_cached_pw_revalidates [of rotated_world 0 "''pw1''", THEN conjunct2, THEN conjunct1]
  have b: "get_cached_pw open_world 0 = Inr (False, None)"
    using plain a by simp
  have c: "get_cached_pw rotated_world 0 = Inr (True, None)"
    using cached rotated_facts by simp
  show ?thesis
    using a b c rotated_facts by simp
qed

text \<open>
  Claim C6, as stated, fails: \<open>get_cached_pw\<close> raises.  Wallet 0 of \<open>orphan_world\<close> is
  password-protected and its window has been deallocated; the query raises
  \<open>RuntimeError\<close> (line 326 of qt.py).
\<close>

theorem get_cached_pw_raises_counterexample:
  "has_password (wallets orphan_world 0) \<and>
   get_cached_password orphan_world 0 = Some ''pw1'' \<and>
   get_cached_pw orphan_world 0 =
     Inl (RuntimeError ''Wallet lacks a valid ElectrumWindow instance!'')"
  by (simp add: orphan_world_def empty_world_def locked_wallet_def plain_wallet_def
      get_cached_pw_def window_for_wallet_def get_cached_password_def)

text \<open>
  Claim C6, amended.  \<open>get_cached_pw\<close> does not raise when the wallet requires no password
  or its window is alive: the \<open>InvalidPassword\<close> of the check is caught, and the query
  returns a pair whose boolean tells whether the wallet is password-protected and whose
  password slot is \<open>None\<close> unless a cached password passed the check (and always \<open>None\<close>
  for a wallet without password).  For a password-protected wallet whose window is gone
  the query raises \<open>RuntimeError\<close>.
\<close>

theorem get_cached_pw_raises_only_without_window:
  "(\<not> has_password (wallets s wid) \<or> window_for_wallet (wallets s wid) \<noteq> None \<longrightarrow>
      (\<exists>p. get_cached_pw s wid = Inr (has_password (wallets s wid), p) \<and>
           (\<not> has_password (wallets s wid) \<longrightarrow> p = None) \<and>
           (\<forall>q. p = Some q \<longrightarrow>
                 check_password (wallets s wid) q \<and> get_cached_password s wid = Some q))) \<and>
   (has_password (wallets s wid) \<and> window_for_wallet (wallets s wid) = None \<longrightarrow>
      get_cached_pw s wid = Inl (RuntimeError ''Wallet lacks a valid ElectrumWindow instance!''))"
  by (auto simp: get_cached_pw_def Let_def split: option.splits)

theorem get_cached_pw_raises_only_without_window_witness:
  "window_for_wallet (wallets rotated_world 0) = Some 1 \<and>
   (\<exists>p. get_cached_pw rotated_world 0 = Inr (True, p)) \<and>
   has_password (wallets orphan_world 0) \<and>
   window_for_wallet (wallets orphan_world 0) = None \<and>
   get_cached_pw orphan_world 0 =
     Inl (RuntimeError ''Wallet lacks a valid ElectrumWindow instance!'')"
  using orphan_facts rotated_facts
    get_cached_pw_raises_only_without_window [of rotated_world 0]
    get_cached_pw_raises_only_without_window [of orphan_world 0]
  by auto

text \<open>
  Claim C9.  For a wallet whose window reference no longer gives a window
  (\<open>window_for_wallet\<close> is \<open>None\<close>), \<open>cache_pw\<close> changes nothing: the password is stored
  nowhere, and the function returns normally.
\<close>

theorem cache_pw_without_window:
  "window_for_wallet (wallets s wid) = None \<Longrightarrow> cache_pw wid password s = s"
  by (simp add: cache_pw_def)

theorem cache_pw_without_window_witness:
  "window_for_wallet (wallets orphan_world 0) = None \<and>
   cache_pw 0 ''pw2'' orphan_world = orphan_world \<and>
   get_cached_password (cache_pw 0 ''pw2'' orphan_world) 0 = Some ''pw1''"
  using orphan_facts cache_pw_without_window [OF orphan_facts(2), of "''pw2''"]
  by simp

section \<open>Properties of \<open>Fusion.stop\<close> and of the loops that call it\<close>

lemma stop_idem: "stop r b (stop r b f) = stop r b f"
  by (cases "status f") (auto simp: stop_def)

lemma stop_waiting: "status f = Waiting \<Longrightarrow> status (stop r b f) = Stopped"
  by (simp add: stop_def)

lemma stop_running_exempt: "status f = Running \<Longrightarrow> stop r True f = f"
  by (simp add: stop_def)

lemma fusion_stop_calls:
  "calls (fusion_stop f r b s) = calls s @ [Stop_call f r b]"
  by (simp add: fusion_stop_def)

text \<open>A loop \<open>for f in fs: f.stop(r, b)\<close> issues one request per handle, in order.\<close>

lemma fold_fusion_stop_calls:
  "calls (fold (\<lambda>f. fusion_stop f r b) fs s) = calls s @ map (\<lambda>f. Stop_call f r b) fs"
  by (induction fs arbitrary: s) (simp_all add: fusion_stop_calls)

text \<open>It applies \<open>stop\<close> to the handles of the list and leaves every other handle alone.\<close>

lemma fold_fusion_stop_fusion:
  "fusion (fold (\<lambda>f. fusion_stop f r b) fs s) g =
     (if g \<in> set fs then stop r b (fusion s g) else fusion s g)"
proof (induction fs arbitrary: s)
  case Nil
  then show ?case by simp
next
  case (Cons f fs)
  have step: "fusion (fusion_stop f r b s) h = (if h = f then stop r b (fusion s h) else fusion s h)"
    for h
    by (simp add: fusion_stop_def)
  show ?case
    by (simp add: Cons.IH step stop_idem)
qed

lemma fold_fusion_stop_frame:
  "wallets (fold (\<lambda>f. fusion_stop f r b) fs s) = wallets s"
  "autofusing_wallets (fold (\<lambda>f. fusion_stop f r b) fs s) = autofusing_wallets s"
  "password_cache (fold (\<lambda>f. fusion_stop f r b) fs s) = password_cache s"
  by (induction fs arbitrary: s) (simp_all add: fusion_stop_def)

lemma storage_put_frame:
  "fusion (storage_put wid key v s) = fusion s"
  "calls (storage_put wid key v s) = calls s"
  "fusions (wallets (storage_put wid key v s) wid') = fusions (wallets s wid')"
  "fusions_auto (wallets (storage_put wid key v s) wid') = fusions_auto (wallets s wid')"
  "storage_get (wallets (storage_put wid key v s) wid) key d = v"
  by (simp_all add: storage_put_def storage_get_def)

lemma queue_facts:
  "storage_get (wallets queue_world 0) ''cashfusion_queued_autofuse'' 4 = 3"
  "fusions_auto (wallets queue_world 0) = [1, 2]"
  "fusions (wallets queue_world 0) = [1, 2, 3]"
  "queued queue_world [1, 2] = [1, 2]"
  "status (fusion queue_world 3) = Running"
  "calls queue_world = []"
  by (simp_all add: queue_world_def empty_world_def plain_wallet_def idle_fusion_def
      storage_get_def queued_def)

text \<open>
  No event of the engine moves a stopped handle, and only the end of the current step
  moves a stopping one.
\<close>

lemma advance_stopped: "advance ev Stopped = Stopped"
  by (cases ev) simp_all

lemma fold_engine_stopped:
  "status f = Stopped \<Longrightarrow> status (fold engine evs f) = Stopped"
  by (induction evs arbitrary: f) (simp_all add: engine_def advance_stopped)

lemma advance_stopping:
  "advance ev Stopping = (if ev = Step_finished then Stopped else Stopping)"
  by (cases ev) simp_all

text \<open>
  Claim C8.  A stop request on a waiting handle makes it \<open>stopped\<close>, and whatever the
  engine does afterwards the handle stays \<open>stopped\<close>: it never reaches \<open>running\<close>.  A stop
  request on a running handle only sets \<open>stop_requested\<close> and the status \<open>stopping\<close>; the
  handle leaves \<open>stopping\<close> only when the round has finished its current step, and then it
  is \<open>stopped\<close>.
\<close>

theorem stop_waiting_never_runs:
  "(status f = Waiting \<longrightarrow>
      status (stop reason not_if_running f) = Stopped \<and>
      (\<forall>evs. status (fold engine evs (stop reason not_if_running f)) = Stopped)) \<and>
   (status f = Running \<longrightarrow>
      status (stop reason False f) = Stopping \<and>
      stop_requested (stop reason False f) \<and>
      (\<forall>ev. status (engine ev (stop reason False f)) =
              (if ev = Step_finished then Stopped else Stopping)))"
proof (intro conjI impI allI)
  assume w: "status f = Waiting"
  then show s: "status (stop reason not_if_running f) = Stopped"
    by (simp add: stop_def)
  show "status (fold engine evs (stop reason not_if_running f)) = Stopped" for evs
    using s by (rule fold_engine_stopped)
next
  assume r: "status f = Running"
  then show s: "status (stop reason False f) = Stopping"
    by (simp add: stop_def)
  from r show "stop_requested (stop reason False f)"
    by (simp add: stop_def)
  show "status (engine ev (stop reason False f)) =
          (if ev = Step_finished then Stopped else Stopping)" for ev
    using s by (simp add: engine_def advance_stopping)
qed

text \<open>
  A waiting handle is stopped and then ignores the start and the completion of a round;
  the running fusion 3 of \<open>queue_world\<close> is flagged and stops at the end of its step.
\<close>

theorem stop_waiting_never_runs_witness:
  "status idle_fusion = Waiting \<and>
   status (stop ''Stop requested by user'' False idle_fusion) = Stopped \<and>
   status (fold engine [Round_started, Round_completed]
             (stop ''Stop requested by user'' False idle_fusion)) = Stopped \<and>
   status (fusion queue_world 3) = Running \<and>
   status (stop ''Stop requested by user'' False (fusion queue_world 3)) = Stopping \<and>
   status (engine Round_completed
             (stop ''Stop requested by user'' False (fusion queue_world 3))) = Stopping \<and>
   status (engine Step_finished
             (stop ''Stop requested by user'' False (fusion queue_world 3))) = Stopped"
proof -
  have w: "status idle_fusion = Waiting"
    by (simp add: idle_fusion_def)
  note a = stop_waiting_never_runs [of idle_fusion "''Stop requested by user''" False]
  note b = stop_waiting_never_runs [of "fusion queue_world 3" "''Stop requested by user''" False]
  from a w have a1: "status (stop ''Stop requested by user'' False idle_fusion) = Stopped"
    and a2: "status (fold engine [Round_started, Round_completed]
             (stop ''Stop requested by user'' False idle_fusion)) = Stopped"
    by blast+
  from b queue_facts(5)
  have b1: "status (stop ''Stop requested by user'' False (fusion queue_world 3)) = Stopping"
    and b2: "\<forall>ev. status (engine ev (stop ''Stop requested by user'' False (fusion queue_world 3))) =
              (if ev = Step_finished then Stopped else Stopping)"
    by blast+
  from b2 have b3: "status (engine Round_completed
             (stop ''Stop requested by user'' False (fusion queue_world 3))) = Stopping"
    and b4: "status (engine Step_finished
             (stop ''Stop requested by user'' False (fusion queue_world 3))) = Stopped"
    by simp_all
  show ?thesis
    using w a1 a2 queue_facts(5) b1 b3 b4 by simp
qed

section \<open>Properties of the wallet settings dialog\<close>

lemma edited_queued_autofuse_decrease:
  assumes "numfuse < storage_get (wallets s wid) ''cashfusion_queued_autofuse'' D"
  shows "edited_queued_autofuse D wid numfuse s =
           fold (\<lambda>f. fusion_stop f ''User decreased queued-fuse limit'' True)
             (fusions_auto (wallets s wid))
             (storage_put wid ''cashfusion_queued_autofuse'' numfuse s)"
  using assms by (simp add: edited_queued_autofuse_def Let_def storage_put_frame)

lemma edited_queued_autofuse_no_decrease:
  assumes "\<not> numfuse < storage_get (wallets s wid) ''cashfusion_queued_autofuse'' D"
  shows "edited_queued_autofuse D wid numfuse s =
           storage_put wid ''cashfusion_queued_autofuse'' numfuse s"
  using assms by (simp add: edited_queued_autofuse_def Let_def)

text \<open>
  Claim C3, as stated, fails.  In \<open>queue_world\<close> the limit is N = 3 and K = 2 autofusions
  are queued; the limit is decreased to M = 1.  The claim has exactly K - M = 1 of them
  stopped; \<open>edited_queued_autofuse\<close> requests stop on both, and both are stopped.
\<close>

theorem edited_queued_autofuse_counterexample:
  "storage_get (wallets queue_world 0) ''cashfusion_queued_autofuse'' 4 = 3 \<and>
   queued queue_world (fusions_auto (wallets queue_world 0)) = [1, 2] \<and>
   calls (edited_queued_autofuse 4 0 1 queue_world) =
     [Stop_call 1 ''User decreased queued-fuse limit'' True,
      Stop_call 2 ''User decreased queued-fuse limit'' True] \<and>
   stopped_between queue_world (edited_queued_autofuse 4 0 1 queue_world)
     (fusions_auto (wallets queue_world 0)) = [1, 2] \<and>
   length (stopped_between queue_world (edited_queued_autofuse 4 0 1 queue_world)
     (fusions_auto (wallets queue_world 0))) \<noteq>
   length (queued queue_world (fusions_auto (wallets queue_world 0))) - 1"
  by (simp add: queue_world_def empty_world_def plain_wallet_def idle_fusion_def
      storage_get_def storage_put_def queued_def stopped_between_def
      edited_queued_autofuse_def fusion_stop_def stop_def Let_def)

text \<open>
  Claim C3, amended.  When the new limit is below the stored one,
  \<open>edited_queued_autofuse\<close> requests stop, with \<open>not_if_running\<close> set, on every autofusion
  of the wallet (\<open>wallet._fusions_auto\<close>), in no order of preference: every queued
  autofusion is stopped, whatever the new limit, no running fusion is changed, and no
  handle outside \<open>wallet._fusions_auto\<close> is touched.  When the limit is not decreased no
  stop is requested and no handle changes.
\<close>

theorem edited_queued_autofuse_stops_all_queued:
  "(numfuse < storage_get (wallets s wid) ''cashfusion_queued_autofuse'' D \<longrightarrow>
      calls (edited_queued_autofuse D wid numfuse s) =
        calls s @ map (\<lambda>f. Stop_call f ''User decreased queued-fuse limit'' True)
                    (fusions_auto (wallets s wid)) \<and>
      stopped_between s (edited_queued_autofuse D wid numfuse s) (fusions_auto (wallets s wid)) =
        queued s (fusions_auto (wallets s wid)) \<and>
      (\<forall>f. status (fusion s f) = Running \<longrightarrow>
            fusion (edited_queued_autofuse D wid numfuse s) f = fusion s f) \<and>
      (\<forall>f. f \<notin> set (fusions_auto (wallets s wid)) \<longrightarrow>
            fusion (edited_queued_autofuse D wid numfuse s) f = fusion s f)) \<and>
   (\<not> numfuse < storage_get (wallets s wid) ''cashfusion_queued_autofuse'' D \<longrightarrow>
      calls (edited_queued_autofuse D wid numfuse s) = calls s \<and>
      fusion (edited_queued_autofuse D wid numfuse s) = fusion s)"
proof (intro conjI impI allI)
  assume d: "numfuse < storage_get (wallets s wid) ''cashfusion_queued_autofuse'' D"
  note e = edited_queued_autofuse_decrease [OF d]
  show "calls (edited_queued_autofuse D wid numfuse s) =
        calls s @ map (\<lambda>f. Stop_call f ''User decreased queued-fuse limit'' True)
                    (fusions_auto (wallets s wid))"
    by (simp add: e fold_fusion_stop_calls storage_put_frame)
  show "stopped_between s (edited_queued_autofuse D wid numfuse s) (fusions_auto (wallets s wid)) =
        queued s (fusions_auto (wallets s wid))"
    unfolding stopped_between_def queued_def
    by (rule filter_cong)
      (auto simp: e fold_fusion_stop_fusion storage_put_frame stop_waiting)
  show "fusion (edited_queued_autofuse D wid numfuse s) f = fusion s f"
    if "status (fusion s f) = Running" for f
    using that by (simp add: e fold_fusion_stop_fusion storage_put_frame stop_running_exempt)
  show "fusion (edited_queued_autofuse D wid numfuse s) f = fusion s f"
    if "f \<notin> set (fusions_auto (wallets s wid))" for f
    using that by (simp add: e fold_fusion_stop_fusion storage_put_frame)
next
  assume d: "\<not> numfuse < storage_get (wallets s wid) ''cashfusion_queued_autofuse'' D"
  note e = edited_queued_autofuse_no_decrease [OF d]
  show "calls (edited_queued_autofuse D wid numfuse s) = calls s"
    by (simp add: e storage_put_frame)
  show "fusion (edited_queued_autofuse D wid numfuse s) = fusion s"
    by (simp add: e storage_put_frame)
qed

text \<open>
  In \<open>queue_world\<close>, lowering the limit from 3 to 1 stops the queued autofusions 1 and 2
  and leaves the running fusion 3 as it is; raising it to 5 requests no stop.
\<close>

theorem edited_queued_autofuse_stops_all_queued_witness:
  "(1::int) < storage_get (wallets queue_world 0) ''cashfusion_queued_autofuse'' 4 \<and>
   calls (edited_queued_autofuse 4 0 1 queue_world) =
     [Stop_call 1 ''User decreased queued-fuse limit'' True,
      Stop_call 2 ''User decreased queued-fuse limit'' True] \<and>
   stopped_between queue_world (edited_queued_autofuse 4 0 1 queue_world) [1, 2] = [1, 2] \<and>
   fusion (edited_queued_autofuse 4 0 1 queue_world) 3 = fusion queue_world 3 \<and>
   \<not> (5::int) < storage_get (wallets queue_world 0) ''cashfusion_queued_autofuse'' 4 \<and>
   calls (edited_queued_autofuse 4 0 5 queue_world) = []"
  using queue_facts
    edited_queued_autofuse_stops_all_queued [of 1 queue_world 0 4]
    edited_queued_autofuse_stops_all_queued [of 5 queue_world 0 4]
  by simp

lemma chose_self_fuse_changed:
  assumes "storage_get (wallets s wid) ''cashfusion_self_fuse_players'' D \<noteq> sel"
  shows "chose_self_fuse D wid sel s =
           fold (\<lambda>f. fusion_stop f ''User changed self-fuse limit'' True)
             (fusions (wallets s wid))
             (storage_put wid ''cashfusion_self_fuse_players'' sel s)"
  using assms by (simp add: chose_self_fuse_def Let_def storage_put_frame)

lemma chose_self_fuse_same:
  assumes "storage_get (wallets s wid) ''cashfusion_self_fuse_players'' D = sel"
  shows "chose_self_fuse D wid sel s = storage_put wid ''cashfusion_self_fuse_players'' sel s"
  using assms by (simp add: chose_self_fuse_def Let_def)

lemma queue_self_fuse:
  "storage_get (wallets queue_world 0) ''cashfusion_self_fuse_players'' 1 = 1"
  by (simp add: queue_world_def empty_world_def plain_wallet_def storage_get_def)

text \<open>
  Claim C10.  When the chosen self-fuse player count differs from the stored one,
  \<open>chose_self_fuse\<close> requests stop, with \<open>not_if_running\<close> set, on every fusion of the
  wallet (\<open>wallet._fusions\<close>, which holds the fusions started by hand as well as the
  autofusions); a running fusion is not changed by the request.  When the chosen count
  is the stored one, no stop is requested and no handle changes.
\<close>

theorem chose_self_fuse_stops_every_fusion:
  "(storage_get (wallets s wid) ''cashfusion_self_fuse_players'' D \<noteq> sel \<longrightarrow>
      calls (chose_self_fuse D wid sel s) =
        calls s @ map (\<lambda>f. Stop_call f ''User changed self-fuse limit'' True)
                    (fusions (wallets s wid)) \<and>
      (\<forall>f \<in> set (fusions (wallets s wid)).
          Stop_call f ''User changed self-fuse limit'' True
            \<in> set (calls (chose_self_fuse D wid sel s)) \<and>
          fusion (chose_self_fuse D wid sel s) f =
            stop ''User changed self-fuse limit'' True (fusion s f)) \<and>
      (\<forall>f. status (fusion s f) = Running \<longrightarrow>
            fusion (chose_self_fuse D wid sel s) f = fusion s f)) \<and>
   (storage_get (wallets s wid) ''cashfusion_self_fuse_players'' D = sel \<longrightarrow>
      calls (chose_self_fuse D wid sel s) = calls s \<and>
      fusion (chose_self_fuse D wid sel s) = fusion s)"
proof (intro conjI impI allI ballI)
  assume d: "storage_get (wallets s wid) ''cashfusion_self_fuse_players'' D \<noteq> sel"
  note e = chose_self_fuse_changed [OF d]
  show c: "calls (chose_self_fuse D wid sel s) =
        calls s @ map (\<lambda>f. Stop_call f ''User changed self-fuse limit'' True)
                    (fusions (wallets s wid))"
    by (simp add: e fold_fusion_stop_calls storage_put_frame)
  show "Stop_call f ''User changed self-fuse limit'' True
          \<in> set (calls (chose_self_fuse D wid sel s))"
    if "f \<in> set (fusions (wallets s wid))" for f
    using that by (simp add: c)
  show "fusion (chose_self_fuse D wid sel s) f =
          stop ''User changed self-fuse limit'' True (fusion s f)"
    if "f \<in> set (fusions (wallets s wid))" for f
    using that by (simp add: e fold_fusion_stop_fusion storage_put_frame)
  show "fusion (chose_self_fuse D wid sel s) f = fusion s f"
    if "status (fusion s f) = Running" for f
    using that by (simp add: e fold_fusion_stop_fusion storage_put_frame stop_running_exempt)
next
  assume d: "storage_get (wallets s wid) ''cashfusion_self_fuse_players'' D = sel"
  note e = chose_self_fuse_same [OF d]
  show "calls (chose_self_fuse D wid sel s) = calls s"
    by (simp add: e storage_put_frame)
  show "fusion (chose_self_fuse D wid sel s) = fusion s"
    by (simp add: e storage_put_frame)
qed

text \<open>
  In \<open>queue_world\<close> (stored count: the default 1), choosing 2 requests stop on the
  autofusions 1 and 2 and on the hand-started fusion 3, which is running and stays as it
  is; choosing 1 requests nothing.
\<close>

theorem chose_self_fuse_stops_every_fusion_witness:
  "storage_get (wallets queue_world 0) ''cashfusion_self_fuse_players'' 1 \<noteq> 2 \<and>
   fusions_auto (wallets queue_world 0) = [1, 2] \<and>
   calls (chose_self_fuse 1 0 2 queue_world) =
     [Stop_call 1 ''User changed self-fuse limit'' True,
      Stop_call 2 ''User changed self-fuse limit'' True,
      Stop_call 3 ''User changed self-fuse limit'' True] \<and>
   status (fusion queue_world 3) = Running \<and>
   fusion (chose_self_fuse 1 0 2 queue_world) 3 = fusion queue_world 3 \<and>
   storage_get (wallets queue_world 0) ''cashfusion_self_fuse_players'' 1 = 1 \<and>
   calls (chose_self_fuse 1 0 1 queue_world) = [] \<and>
   fusion (chose_self_fuse 1 0 1 queue_world) = fusion queue_world"
  using queue_facts queue_self_fuse
    chose_self_fuse_stops_every_fusion [of queue_world 0 1 2]
    chose_self_fuse_stops_every_fusion [of queue_world 0 1 1]
  by (simp add: stop_running_exempt)

section \<open>Properties of the autofuse registry and of its callers\<close>

lemma cache_pw_frame:
  "wallets (cache_pw wid pw s) = wallets s"
  "fusion (cache_pw wid pw s) = fusion s"
  "calls (cache_pw wid pw s) = calls s"
  "autofusing_wallets (cache_pw wid pw s) = autofusing_wallets s"
  by (simp_all add: cache_pw_def cache_password_def split: option.splits)

lemma enable_autofusing_invalid:
  "\<not> credential_ok (wallets s wid) password \<Longrightarrow>
     enable_autofusing wid password s = Inl InvalidPassword"
  by (simp add: enable_autofusing_def)

lemma enable_autofusing_valid:
  assumes "credential_ok (wallets s wid) password"
  shows "\<exists>s1. enable_autofusing wid password s = Inr s1 \<and>
           autofusing_wallets s1 = (autofusing_wallets s)(wid \<mapsto> password) \<and>
           wallets s1 = wallets s \<and> fusion s1 = fusion s \<and> calls s1 = calls s"
  using assms
  by (cases password) (simp_all add: enable_autofusing_def Let_def cache_pw_frame)

lemma disable_autofusing_frame:
  "fst (disable_autofusing wid s) =
     filter (\<lambda>f. in_flight (fusion s f)) (fusions (wallets s wid))"
  "autofusing_wallets (snd (disable_autofusing wid s)) wid = None"
  "wallets (snd (disable_autofusing wid s)) = wallets s"
  "fusion (snd (disable_autofusing wid s)) = fusion s"
  "calls (snd (disable_autofusing wid s)) = calls s"
  by (simp_all add: disable_autofusing_def)

text \<open>The \<open>try\<close> branch of \<open>on_new_password\<close>: the new password passes the check.\<close>

lemma on_new_password_valid:
  assumes "is_autofusing s wid" and "credential_ok (wallets s wid) new"
  shows "\<exists>s'. on_new_password wid old new s = Inr s' \<and>
           autofusing_wallets s' wid = Some new \<and> wallets s' = wallets s \<and>
           calls s' = calls s @ [Print_error wid ''updated autofusion password'']"
proof -
  from enable_autofusing_valid [OF assms(2)] obtain s1 where
    e: "enable_autofusing wid new s = Inr s1"
    and s1: "autofusing_wallets s1 = (autofusing_wallets s)(wid \<mapsto> new)"
      "wallets s1 = wallets s" "calls s1 = calls s"
    by blast
  from assms(1) e
  have "on_new_password wid old new s =
          Inr (print_error wid ''updated autofusion password'' s1)"
    by (simp add: on_new_password_def)
  with s1 show ?thesis by (simp add: print_error_def)
qed

text \<open>The \<open>except InvalidPassword\<close> branch: the new password fails the check.\<close>

lemma on_new_password_invalid:
  assumes "is_autofusing s wid" and "\<not> credential_ok (wallets s wid) new"
  shows "\<exists>s'. on_new_password wid old new s = Inr s' \<and>
           autofusing_wallets s' wid = None \<and> wallets s' = wallets s \<and>
           fusion s' = fusion s \<and>
           calls s' = calls s @
             [Print_error wid ''disabled autofusion due to incorrect password - BUG'']"
proof -
  have "on_new_password wid old new s =
          Inr (print_error wid ''disabled autofusion due to incorrect password - BUG''
                 (snd (disable_autofusing wid s)))"
    using assms
    by (simp add: on_new_password_def enable_autofusing_invalid split: prod.splits)
  then show ?thesis
    by (simp add: print_error_def disable_autofusing_frame)
qed

lemma healing_facts:
  "is_autofusing healing_world 0"
  "credential_ok (wallets healing_world 0) (Some ''pw2'')"
  "\<not> credential_ok (wallets healing_world 0) (Some ''pw3'')"
  "calls healing_world = []"
  by (simp_all add: healing_world_def empty_world_def locked_wallet_def plain_wallet_def
      is_autofusing_def credential_ok_def)

text \<open>
  Claim C2.  For a wallet with autofuse enabled, \<open>on_new_password\<close> tries to enable
  autofusing again with the new password.  When the new password passes the wallet's
  check, the wallet stays autofusing, now under the new password, and
  \<open>updated autofusion password\<close> is printed.  When the attempt raises \<open>InvalidPassword\<close>,
  autofusing is disabled and the diagnostic
  \<open>disabled autofusion due to incorrect password - BUG\<close> is printed.  In no case does the
  hook raise, and a wallet that is autofusing afterwards is so under the new password,
  which its wallet accepts.
\<close>

theorem on_new_password_never_stale:
  "is_autofusing s wid \<Longrightarrow>
     (credential_ok (wallets s wid) new \<longrightarrow>
        (\<exists>s'. on_new_password wid old new s = Inr s' \<and>
              autofusing_wallets s' wid = Some new \<and>
              calls s' = calls s @ [Print_error wid ''updated autofusion password''])) \<and>
     (\<not> credential_ok (wallets s wid) new \<longrightarrow>
        (\<exists>s'. on_new_password wid old new s = Inr s' \<and>
              \<not> is_autofusing s' wid \<and>
              calls s' = calls s @
                [Print_error wid ''disabled autofusion due to incorrect password - BUG''])) \<and>
     (\<forall>s'. on_new_password wid old new s = Inr s' \<and> is_autofusing s' wid \<longrightarrow>
           autofusing_wallets s' wid = Some new \<and> credential_ok (wallets s' wid) new)"
proof (intro conjI impI allI)
  assume a: "is_autofusing s wid"
  {
    assume c: "credential_ok (wallets s wid) new"
    from on_new_password_valid [OF a c, of old]
    show "\<exists>s'. on_new_password wid old new s = Inr s' \<and>
              autofusing_wallets s' wid = Some new \<and>
              calls s' = calls s @ [Print_error wid ''updated autofusion password'']"
      by blast
  }
  {
    assume c: "\<not> credential_ok (wallets s wid) new"
    from on_new_password_invalid [OF a c, of old]
    show "\<exists>s'. on_new_password wid old new s = Inr s' \<and>
              \<not> is_autofusing s' wid \<and>
              calls s' = calls s @
                [Print_error wid ''disabled autofusion due to incorrect password - BUG'']"
      by (auto simp: is_autofusing_def)
  }
  {
    fix s'
    assume r: "on_new_password wid old new s = Inr s' \<and> is_autofusing s' wid"
    show "autofusing_wallets s' wid = Some new"
      using r on_new_password_valid [OF a, of new old] on_new_password_invalid [OF a, of new old]
      by (cases "credential_ok (wallets s wid) new") (auto simp: is_autofusing_def)
    show "credential_ok (wallets s' wid) new"
      using r on_new_password_valid [OF a, of new old] on_new_password_invalid [OF a, of new old]
      by (cases "credential_ok (wallets s wid) new") (auto simp: is_autofusing_def)
  }
qed

text \<open>
  Wallet 0 of \<open>healing_world\<close> is autofusing and its password is now \<open>pw2\<close>.  Notified of
  \<open>pw2\<close>, the plugin keeps autofusing under \<open>pw2\<close>; notified of \<open>pw3\<close>, which the wallet
  rejects, it disables autofusing and prints the diagnostic.
\<close>

theorem on_new_password_never_stale_witness:
  "is_autofusing healing_world 0 \<and>
   credential_ok (wallets healing_world 0) (Some ''pw2'') \<and>
   (\<exists>s'. on_new_password 0 (Some ''pw1'') (Some ''pw2'') healing_world = Inr s' \<and>
         autofusing_wallets s' 0 = Some (Some ''pw2'') \<and>
         calls s' = [Print_error 0 ''updated autofusion password'']) \<and>
   \<not> credential_ok (wallets healing_world 0) (Some ''pw3'') \<and>
   (\<exists>s'. on_new_password 0 (Some ''pw1'') (Some ''pw3'') healing_world = Inr s' \<and>
         \<not> is_autofusing s' 0 \<and>
         calls s' = [Print_error 0 ''disabled autofusion due to incorrect password - BUG''])"
  using healing_facts
    on_new_password_never_stale [OF healing_facts(1), of "Some ''pw2''" "Some ''pw1''"]
    on_new_password_never_stale [OF healing_facts(1), of "Some ''pw3''" "Some ''pw1''"]
  by simp

text \<open>The \<open>else\<close> branch of \<open>toggle_autofuse\<close>, taken when the wallet is autofusing.\<close>

lemma toggle_autofuse_enabled:
  assumes "is_autofusing s wid"
  shows "toggle_autofuse wid typed plugin_active answer_yes s =
           (if fst (disable_autofusing wid s) \<noteq> [] \<and> answer_yes then
              Inr (fold (\<lambda>f. fusion_stop f ''Stop requested by user'' False)
                     (fst (disable_autofusing wid s)) (snd (disable_autofusing wid s)))
            else Inr (snd (disable_autofusing wid s)))"
  using assms by (simp add: toggle_autofuse_def split: prod.splits)

lemma fusing_facts:
  "is_autofusing fusing_world 0"
  "fusions (wallets fusing_world 0) = [1, 2, 3]"
  "calls fusing_world = []"
  "in_flight (fusion fusing_world 1)"
  "in_flight (fusion fusing_world 2)"
  "in_flight (fusion fusing_world 3)"
  by (simp_all add: fusing_world_def queue_world_def empty_world_def plain_wallet_def
      idle_fusion_def is_autofusing_def in_flight_def)

text \<open>
  Claim C7.  For a wallet with autofuse enabled, \<open>disable_autofusing\<close> returns the
  handles of the wallet's rounds that are running or queued, leaves the wallet not
  autofusing, and changes no handle and requests no stop.  Stopping is the caller's
  decision: \<open>toggle_autofuse\<close> changes no handle when the user declines, and requests stop
  on exactly the returned handles when the user agrees.
\<close>

theorem disable_autofusing_stops_nothing:
  "is_autofusing s wid \<Longrightarrow>
     fst (disable_autofusing wid s) =
       filter (\<lambda>f. in_flight (fusion s f)) (fusions (wallets s wid)) \<and>
     \<not> is_autofusing (snd (disable_autofusing wid s)) wid \<and>
     fusion (snd (disable_autofusing wid s)) = fusion s \<and>
     calls (snd (disable_autofusing wid s)) = calls s \<and>
     (\<exists>s'. toggle_autofuse wid typed plugin_active False s = Inr s' \<and>
           \<not> is_autofusing s' wid \<and> fusion s' = fusion s \<and> calls s' = calls s) \<and>
     (\<exists>s'. toggle_autofuse wid typed plugin_active True s = Inr s' \<and>
           \<not> is_autofusing s' wid \<and>
           calls s' = calls s @ map (\<lambda>f. Stop_call f ''Stop requested by user'' False)
                                  (fst (disable_autofusing wid s)))"
proof (intro conjI)
  assume a: "is_autofusing s wid"
  show "fst (disable_autofusing wid s) =
          filter (\<lambda>f. in_flight (fusion s f)) (fusions (wallets s wid))"
    by (simp add: disable_autofusing_frame)
  show d: "\<not> is_autofusing (snd (disable_autofusing wid s)) wid"
    by (simp add: is_autofusing_def disable_autofusing_frame)
  show "fusion (snd (disable_autofusing wid s)) = fusion s"
    by (simp add: disable_autofusing_frame)
  show "calls (snd (disable_autofusing wid s)) = calls s"
    by (simp add: disable_autofusing_frame)
  show "\<exists>s'. toggle_autofuse wid typed plugin_active False s = Inr s' \<and>
           \<not> is_autofusing s' wid \<and> fusion s' = fusion s \<and> calls s' = calls s"
    using d by (simp add: toggle_autofuse_enabled [OF a] disable_autofusing_frame)
  show "\<exists>s'. toggle_autofuse wid typed plugin_active True s = Inr s' \<and>
           \<not> is_autofusing s' wid \<and>
           calls s' = calls s @ map (\<lambda>f. Stop_call f ''Stop requested by user'' False)
                                  (fst (disable_autofusing wid s))"
    using d
    by (auto simp: toggle_autofuse_enabled [OF a] is_autofusing_def fold_fusion_stop_calls
        fold_fusion_stop_frame disable_autofusing_frame)
qed

text \<open>
  Wallet 0 of \<open>fusing_world\<close> is autofusing with the rounds 1, 2 (waiting) and 3 (running)
  in flight.  Disabling returns the three and changes none; the toggle requests no stop
  when the user declines and three when the user agrees.
\<close>

theorem disable_autofusing_stops_nothing_witness:
  "is_autofusing fusing_world 0 \<and>
   fst (disable_autofusing 0 fusing_world) = [1, 2, 3] \<and>
   \<not> is_autofusing (snd (disable_autofusing 0 fusing_world)) 0 \<and>
   fusion (snd (disable_autofusing 0 fusing_world)) = fusion fusing_world \<and>
   (\<exists>s'. toggle_autofuse 0 [] True False fusing_world = Inr s' \<and>
         fusion s' = fusion fusing_world \<and> calls s' = []) \<and>
   (\<exists>s'. toggle_autofuse 0 [] True True fusing_world = Inr s' \<and>
         calls s' = [Stop_call 1 ''Stop requested by user'' False,
                     Stop_call 2 ''Stop requested by user'' False,
                     Stop_call 3 ''Stop requested by user'' False])"
  using fusing_facts
    disable_autofusing_stops_nothing [OF fusing_facts(1), of "[]" True]
  by auto

section \<open>Properties of the server status notification\<close>

lemma notify_all_Nil: "notify_all [] s = s"
  by (simp add: notify_all_def)

lemma notify_all_Cons:
  "notify_all (p # ps) s = notify_all ps (notify_server_status (fst p) (snd p) s)"
  by (simp add: notify_all_def)

lemma notify_server_status_same:
  "last_server_status s = (b, tup) \<Longrightarrow> notify_server_status b tup s = s"
  by (simp add: notify_server_status_def Let_def)

lemma notify_server_status_new:
  assumes "last_server_status s \<noteq> (b, tup)"
  shows "last_server_status (notify_server_status b tup s) = (b, tup)"
    and "server_status_changed_signal (notify_server_status b tup s) =
           server_status_changed_signal s @ [(b, tup)]"
  using assms by (simp_all add: notify_server_status_def Let_def)

text \<open>
  What a sequence of publications adds to the signal: the publications, with every
  publication dropped that equals the one before it (or, for the first, the status the
  plugin started from).
\<close>

lemma notify_all_signal:
  "server_status_changed_signal (notify_all ps s) =
     server_status_changed_signal s @ tl (remdups_adj (last_server_status s # ps))"
proof (induction ps arbitrary: s)
  case Nil
  then show ?case by (simp add: notify_all_Nil)
next
  case (Cons p ps)
  show ?case
  proof (cases "last_server_status s = p")
    case True
    then have "notify_server_status (fst p) (snd p) s = s"
      by (simp add: notify_server_status_same)
    with Cons True show ?thesis by (simp add: notify_all_Cons)
  next
    case False
    then have "last_server_status s \<noteq> (fst p, snd p)" by simp
    from notify_server_status_new [OF this] Cons False
    show ?thesis by (simp add: notify_all_Cons)
  qed
qed

lemma distinct_adj_after:
  "distinct_adj (x # tl (remdups_adj (x # xs)))"
proof -
  have "remdups_adj (x # xs) = x # tl (remdups_adj (x # xs))"
    by (cases xs) auto
  then show ?thesis
    using distinct_adj_remdups_adj [of "x # xs"] by simp
qed

lemma deliver_shown:
  "shown (deliver ss btn) =
     shown btn @ tl (remdups_adj (server_error btn # map get_server_error ss))"
proof (induction ss arbitrary: btn)
  case Nil
  then show ?case by (simp add: deliver_def)
next
  case (Cons s ss)
  have step: "deliver (s # ss) btn = deliver ss (update_server_error s btn)"
    by (simp add: deliver_def)
  show ?case
  proof (cases "get_server_error s = server_error btn")
    case True
    then have "update_server_error s btn = btn"
      by (simp add: update_server_error_def Let_def)
    with Cons True show ?thesis by (simp add: step)
  next
    case False
    then have "server_error (update_server_error s btn) = get_server_error s"
      and "shown (update_server_error s btn) = shown btn @ [get_server_error s]"
      by (simp_all add: update_server_error_def Let_def)
    with Cons False show ?thesis by (simp add: step)
  qed
qed

text \<open>
  Claim C5.  For every sequence of publications, \<open>notify_server_status\<close> emits exactly the
  publications that differ from the value published last: a publication equal to
  \<open>last_server_status\<close> leaves the state as it is, and among the emitted payloads (also
  when preceded by the status the plugin started from) no two neighbours are equal.
  The subscriber \<open>FusionButton.update_server_error\<close> likewise acts only on a server error
  that differs from the one it holds, so that no two neighbours are equal among the
  values it shows.
\<close>

theorem notify_server_status_dedup:
  "server_status_changed_signal (notify_all ps s) =
     server_status_changed_signal s @ tl (remdups_adj (last_server_status s # ps)) \<and>
   distinct_adj (last_server_status s # tl (remdups_adj (last_server_status s # ps))) \<and>
   (server_status_changed_signal s = [] \<longrightarrow>
      distinct_adj (server_status_changed_signal (notify_all ps s))) \<and>
   notify_server_status (fst (last_server_status s)) (snd (last_server_status s)) s = s \<and>
   shown (deliver ss btn) =
     shown btn @ tl (remdups_adj (server_error btn # map get_server_error ss)) \<and>
   distinct_adj (server_error btn # tl (remdups_adj (server_error btn # map get_server_error ss)))"
proof (intro conjI impI)
  show "server_status_changed_signal (notify_all ps s) =
     server_status_changed_signal s @ tl (remdups_adj (last_server_status s # ps))"
    by (rule notify_all_signal)
  show d: "distinct_adj (last_server_status s # tl (remdups_adj (last_server_status s # ps)))"
    by (rule distinct_adj_after)
  show "distinct_adj (server_status_changed_signal (notify_all ps s))"
    if "server_status_changed_signal s = []"
    using that distinct_adj_ConsD [OF d] by (simp add: notify_all_signal)
  show "notify_server_status (fst (last_server_status s)) (snd (last_server_status s)) s = s"
    by (simp add: notify_server_status_same)
  show "shown (deliver ss btn) =
     shown btn @ tl (remdups_adj (server_error btn # map get_server_error ss))"
    by (rule deliver_shown)
  show "distinct_adj (server_error btn # tl (remdups_adj (server_error btn # map get_server_error ss)))"
    by (rule distinct_adj_after)
qed

text \<open>
  A plugin that starts with the status \<open>(True, (Ok, ))\<close> and is notified of Ok, an
  error twice, and Ok twice emits the error and then Ok.
\<close>

theorem notify_server_status_dedup_witness:
  "server_status_changed_signal empty_world = [] \<and>
   server_status_changed_signal
     (notify_all [(True, (''Ok'', [])), (False, (''Error'', ''down'')),
                  (False, (''Error'', ''down'')), (True, (''Ok'', [])),
                  (True, (''Ok'', []))] empty_world) =
     [(False, (''Error'', ''down'')), (True, (''Ok'', []))] \<and>
   distinct_adj (server_status_changed_signal
     (notify_all [(True, (''Ok'', [])), (False, (''Error'', ''down'')),
                  (False, (''Error'', ''down'')), (True, (''Ok'', [])),
                  (True, (''Ok'', []))] empty_world))"
proof -
  have e: "server_status_changed_signal empty_world = []"
    "last_server_status empty_world = (True, (''Ok'', []))"
    by (simp_all add: empty_world_def)
  show ?thesis
    using e notify_server_status_dedup [of
        "[(True, (''Ok'', [])), (False, (''Error'', ''down'')),
          (False, (''Error'', ''down'')), (True, (''Ok'', [])), (True, (''Ok'', []))]"
        empty_world "[]" fresh_button]
    by simp
qed

end
